theory Spec2Isabelle
  imports Complex_Main
begin

section \<open>Raster images\<close>

text \<open>
  The imaging library is outside the repository. An image is its size and its pixels;
  a coordinate pair is (column, row). The pixel type is a parameter with a zero
  (black): the source works on RGB images and on a single-channel mask.
\<close>

record 'p image =
  width :: int
  height :: int
  getpixel :: "int \<times> int \<Rightarrow> 'p"

type_synonym box = "int \<times> int \<times> int \<times> int"

definition inside :: "'p image \<Rightarrow> int \<times> int \<Rightarrow> bool" where
  "inside im p \<longleftrightarrow> 0 \<le> fst p \<and> fst p < width im \<and> 0 \<le> snd p \<and> snd p < height im"

text \<open>\<^verbatim>\<open>Image.new(mode, (w, h), c)\<close>: every pixel has the colour c.\<close>

definition new_image :: "int \<Rightarrow> int \<Rightarrow> 'p \<Rightarrow> 'p image" where
  "new_image w h c = \<lparr>width = w, height = h, getpixel = (\<lambda>p. c)\<rparr>"

text \<open>
  \<^verbatim>\<open>image.crop((left, upper, right, lower))\<close>: the result has size
  (right - left, lower - upper); a pixel of the result that falls outside the source
  is black.
\<close>

definition crop :: "'p::zero image \<Rightarrow> box \<Rightarrow> 'p image" where
  "crop im b = (case b of (left, upper, right, lower) \<Rightarrow>
     \<lparr>width = right - left, height = lower - upper,
      getpixel = (\<lambda>(x, y). if inside im (x + left, y + upper)
                              then getpixel im (x + left, y + upper) else 0)\<rparr>)"

section \<open>Python values\<close>

datatype py_error = ValueError | KeyError | StopIteration | IndexError | ServiceError

text \<open>
  Coordinates are Python floats; every finite float is a real number, and the only
  arithmetic the source performs on them is \<^verbatim>\<open>int(x)\<close>, which truncates toward zero.
\<close>

definition py_int :: "real \<Rightarrow> int" where
  "py_int r = (if r < 0 then \<lceil>r\<rceil> else \<lfloor>r\<rfloor>)"

section \<open>image_processor.py\<close>

text \<open>
  The processor's fields. The directory of source images is the environment: a file
  name either loads to an RGB image or does not (file missing, or not decodable).
\<close>

record 'p image_processor =
  images_dir :: "string \<Rightarrow> 'p image option"
  use_segmentation :: bool

definition load_image :: "'p image_processor \<Rightarrow> string \<Rightarrow> 'p image option" where
  "load_image self image_filename = images_dir self image_filename"

text \<open>
  \<^verbatim>\<open>_crop_by_bbox\<close>. Unpacking \<^verbatim>\<open>x, y, width, height = bbox\<close> raises ValueError
  unless the list has four elements.
\<close>

fun crop_by_bbox :: "'p::zero image \<Rightarrow> real list \<Rightarrow> py_error + 'p image" where
  "crop_by_bbox im [x0, y0, width0, height0] =
     (let x = max 0 (py_int x0);
          y = max 0 (py_int y0);
          w = min (py_int width0) (width im - x);
          h = min (py_int height0) (height im - y)
      in if w < 1 \<or> h < 1
         then Inr (crop im (0, 0, min 10 (width im), min 10 (height im)))
         else Inr (crop im (x, y, x + w, y + h)))"
| "crop_by_bbox im bbox = Inl ValueError"

text \<open>
  \<^verbatim>\<open>_crop_by_segmentation\<close>, first the conversion of a flat coordinate list to points:
  a trailing coordinate without a partner is dropped.
\<close>

fun polygon_points :: "real list \<Rightarrow> (real \<times> real) list" where
  "polygon_points (a # b # rest) = (a, b) # polygon_points rest"
| "polygon_points rest = []"

text \<open>
  \<^verbatim>\<open>draw.polygon(points, fill)\<close> belongs to the imaging library. Which pixels a
  polygon covers is the parameter \<open>cover\<close>; drawing sets the covered pixels that lie
  inside the mask to the fill value and leaves the size of the mask alone.
\<close>

type_synonym rasteriser = "(real \<times> real) list \<Rightarrow> int \<times> int \<Rightarrow> bool"

definition draw_polygon :: "rasteriser \<Rightarrow> nat image \<Rightarrow> (real \<times> real) list \<Rightarrow> nat \<Rightarrow> nat image" where
  "draw_polygon cover mask' points fill =
     mask'\<lparr>getpixel := (\<lambda>p. if inside mask' p \<and> cover points p then fill else getpixel mask' p)\<rparr>"

text \<open>
  Modelled from the spec: the polygon rasteriser, which is library code and not in the
  repository. Section 4.1 asks for an even-odd fill that marks the interior pixels: a
  pixel is covered when the horizontal ray from its centre crosses an odd number of
  polygon edges. The source functions above and below take the rasteriser as a
  parameter; this one is a concrete instance to evaluate them with.
\<close>

definition crosses :: "real \<times> real \<Rightarrow> (real \<times> real) \<times> (real \<times> real) \<Rightarrow> bool" where
  "crosses c e = (case (c, e) of ((cx, cy), ((x1, y1), (x2, y2))) \<Rightarrow>
     (y1 > cy) \<noteq> (y2 > cy) \<and> cx < (x2 - x1) * (cy - y1) / (y2 - y1) + x1)"

definition even_odd_fill :: rasteriser where
  "even_odd_fill points p =
     odd (length (filter (crosses (real_of_int (fst p) + 1 / 2, real_of_int (snd p) + 1 / 2))
                         (zip points (rotate1 points))))"

text \<open>The loop over the polygons of a segmentation (lines 129 to 137).\<close>

fun draw_polygons :: "rasteriser \<Rightarrow> nat image \<Rightarrow> real list list \<Rightarrow> nat image" where
  "draw_polygons cover mask' [] = mask'"
| "draw_polygons cover mask' (polygon # rest) =
     (let points = polygon_points polygon
      in draw_polygons cover
           (if length points \<ge> 3 then draw_polygon cover mask' points 255 else mask') rest)"

definition segmentation_mask :: "rasteriser \<Rightarrow> 'p image \<Rightarrow> real list list \<Rightarrow> nat image" where
  "segmentation_mask cover im segmentation =
     draw_polygons cover (new_image (width im) (height im) 0) segmentation"

text \<open>
  \<^verbatim>\<open>mask.getbbox()\<close>: the box (left, upper, right, lower) around the non-zero pixels,
  right and lower exclusive, or None when every pixel is zero.
\<close>

definition nonzero_pixels :: "nat image \<Rightarrow> (int \<times> int) list" where
  "nonzero_pixels m =
     concat (map (\<lambda>x. concat (map (\<lambda>y. if getpixel m (x, y) \<noteq> 0 then [(x, y)] else [])
                                   [0 .. height m - 1])) [0 .. width m - 1])"

definition getbbox :: "nat image \<Rightarrow> box option" where
  "getbbox m =
     (let nz = nonzero_pixels m
      in if nz = [] then None
         else Some (Min (set (map fst nz)), Min (set (map snd nz)),
                    Max (set (map fst nz)) + 1, Max (set (map snd nz)) + 1))"

text \<open>
  The composite (lines 145 to 162): a transparent canvas of the cropped size receives
  the source pixel wherever the cropped mask is non-zero; converting to RGB turns the
  untouched transparent pixels black.
\<close>

definition composite :: "'p::zero image \<Rightarrow> nat image \<Rightarrow> 'p image" where
  "composite cropped_image cropped_mask =
     \<lparr>width = width cropped_image, height = height cropped_image,
      getpixel = (\<lambda>p. if inside cropped_image p \<and> getpixel cropped_mask p > 0
                       then getpixel cropped_image p else 0)\<rparr>"

definition crop_by_segmentation :: "rasteriser \<Rightarrow> 'p::zero image \<Rightarrow> real list list \<Rightarrow> 'p image" where
  "crop_by_segmentation cover im segmentation =
     (let mask' = segmentation_mask cover im segmentation
      in case getbbox mask' of
           None \<Rightarrow> crop im (0, 0, min 10 (width im), min 10 (height im))
         | Some bbox \<Rightarrow> composite (crop im bbox) (crop mask' bbox))"

text \<open>
  \<^verbatim>\<open>crop_object\<close>. An optional list counts as true in a condition when it is neither
  None nor empty.
\<close>

definition truthy :: "'a list option \<Rightarrow> bool" where
  "truthy v = (case v of None \<Rightarrow> False | Some xs \<Rightarrow> xs \<noteq> [])"

definition crop_object ::
  "rasteriser \<Rightarrow> 'p::zero image_processor \<Rightarrow> string \<Rightarrow> real list option \<Rightarrow> real list list option
     \<Rightarrow> py_error + 'p image option" where
  "crop_object cover self image_filename bbox segmentation =
     (case load_image self image_filename of
        None \<Rightarrow> Inr None
      | Some im \<Rightarrow>
          if use_segmentation self \<and> truthy segmentation \<and> length (the segmentation) > 0
          then Inr (Some (crop_by_segmentation cover im (the segmentation)))
          else if truthy bbox \<and> length (the bbox) = 4
          then map_sum id Some (crop_by_bbox im (the bbox))
          else Inr None)"

section \<open>embedding_generator.py\<close>

text \<open>
  The generator's fields. The embedding service is outside the repository: a call
  either returns a list of vectors or raises.
\<close>

type_synonym vector = "real list"

record 'p embedding_generator =
  vector_size :: int
  embed :: "'p image list \<Rightarrow> py_error + vector list"

text \<open>
  \<^verbatim>\<open>generate_embeddings\<close>. \<^verbatim>\<open>[0.0] * n\<close> is the empty list for a negative n.
\<close>

definition generate_embeddings :: "'p embedding_generator \<Rightarrow> 'p image list \<Rightarrow> vector list" where
  "generate_embeddings self imgs =
     (if imgs = [] then []
      else case embed self imgs of
             Inr results \<Rightarrow> results
           | Inl e \<Rightarrow> replicate (length imgs) (replicate (nat (vector_size self)) 0))"

section \<open>The annotation data\<close>

record image_info =
  img_id :: int
  file_name :: string

record category =
  cat_id :: int
  cat_name :: string

text \<open>
  An annotation. The keys read with \<^verbatim>\<open>ann.get\<close> may be missing and are options;
  the others are read with \<^verbatim>\<open>ann[...]\<close>.
\<close>

record annotation =
  ann_id :: int
  image_id :: int
  category_id :: int
  bbox :: "real list option"
  segmentation :: "real list list option"
  area :: "real option"
  iscrowd :: "int option"

record coco_data =
  images :: "image_info list"
  annotations :: "annotation list"
  categories :: "category list"

record 'p cropped_object =
  obj_image :: "'p image"
  obj_annotation :: annotation
  obj_image_info :: image_info
  obj_category :: category

record payload =
  p_image_id :: int
  p_file_name :: string
  p_category_id :: int
  p_category_name :: string
  p_bbox :: "real list option"
  p_segmentation :: "real list list option"
  p_area :: "real option"
  p_iscrowd :: int

record upload_object =
  up_id :: int
  up_vector :: vector
  up_payload :: payload

section \<open>coco_parser.py\<close>



section \<open>main.py\<close>

text \<open>
  Lines 152 to 156: the dictionary of the images of this batch, built by one pass over
  all images, a later image with the same id replacing an earlier one.
\<close>

definition image_data :: "image_info list \<Rightarrow> annotation list \<Rightarrow> (int \<rightharpoonup> image_info)" where
  "image_data imgs batch_annotations =
     (let image_ids = map image_id batch_annotations
      in fold (\<lambda>img d. d(img_id img \<mapsto> img))
           (filter (\<lambda>img. img_id img \<in> set image_ids) imgs) Map.empty)"

text \<open>
  Lines 162 to 165: \<^verbatim>\<open>next\<close> over a generator walks the categories in order and
  returns the first whose id matches; it raises StopIteration when none does.
\<close>

fun next_category :: "category list \<Rightarrow> int \<Rightarrow> py_error + category" where
  "next_category [] cid = Inl StopIteration"
| "next_category (cat # cats) cid =
     (if cat_id cat = cid then Inr cat else next_category cats cid)"

text \<open>The number of categories whose id that walk compares with the wanted one.\<close>

fun next_category_steps :: "category list \<Rightarrow> int \<Rightarrow> nat" where
  "next_category_steps [] cid = 0"
| "next_category_steps (cat # cats) cid =
     (if cat_id cat = cid then 1 else 1 + next_category_steps cats cid)"

text \<open>
  Lines 159 to 180: the loop over the annotations of a batch. An exception leaves the
  loop; an object whose crop is None is left out.
\<close>

fun crop_batch ::
  "rasteriser \<Rightarrow> 'p::zero image_processor \<Rightarrow> (int \<rightharpoonup> image_info) \<Rightarrow> category list
     \<Rightarrow> annotation list \<Rightarrow> py_error + 'p cropped_object list" where
  "crop_batch cover image_processor idata cats [] = Inr []"
| "crop_batch cover image_processor idata cats (ann # anns) =
     (case idata (image_id ann) of
        None \<Rightarrow> Inl KeyError
      | Some info \<Rightarrow>
          (case next_category cats (category_id ann) of
             Inl e \<Rightarrow> Inl e
           | Inr cat \<Rightarrow>
               (case crop_object cover image_processor (file_name info) (bbox ann) (segmentation ann) of
                  Inl e \<Rightarrow> Inl e
                | Inr cropped_image \<Rightarrow>
                    (case crop_batch cover image_processor idata cats anns of
                       Inl e \<Rightarrow> Inl e
                     | Inr cropped_objects \<Rightarrow>
                         (case cropped_image of
                            None \<Rightarrow> Inr cropped_objects
                          | Some im \<Rightarrow>
                              Inr (\<lparr>obj_image = im, obj_annotation = ann,
                                    obj_image_info = info, obj_category = cat\<rparr>
                                   # cropped_objects))))))"

text \<open>
  The test of line 174 for one annotation: its image record is found and the crop of
  its object is not None.
\<close>

definition survives ::
  "rasteriser \<Rightarrow> 'p::zero image_processor \<Rightarrow> (int \<rightharpoonup> image_info) \<Rightarrow> annotation \<Rightarrow> bool" where
  "survives cover image_processor idata ann =
     (case idata (image_id ann) of
        None \<Rightarrow> False
      | Some info \<Rightarrow>
          (case crop_object cover image_processor (file_name info) (bbox ann) (segmentation ann) of
             Inr (Some im) \<Rightarrow> True
           | _ \<Rightarrow> False))"

text \<open>Lines 190 to 203: the record built for one object and its vector.\<close>

definition make_upload_object :: "'p cropped_object \<Rightarrow> vector \<Rightarrow> upload_object" where
  "make_upload_object obj v =
     \<lparr>up_id = ann_id (obj_annotation obj),
      up_vector = v,
      up_payload =
        \<lparr>p_image_id = img_id (obj_image_info obj),
         p_file_name = file_name (obj_image_info obj),
         p_category_id = cat_id (obj_category obj),
         p_category_name = cat_name (obj_category obj),
         p_bbox = bbox (obj_annotation obj),
         p_segmentation = segmentation (obj_annotation obj),
         p_area = area (obj_annotation obj),
         p_iscrowd = (case iscrowd (obj_annotation obj) of None \<Rightarrow> 0 | Some c \<Rightarrow> c)\<rparr>\<rparr>"

text \<open>
  Lines 188 to 203: the loop over \<^verbatim>\<open>enumerate(cropped_objects)\<close>, from index i on.
  \<^verbatim>\<open>embeddings[i]\<close> raises IndexError when the list of vectors has no index i.
\<close>

fun prepare_upload :: "vector list \<Rightarrow> nat \<Rightarrow> 'p cropped_object list \<Rightarrow> py_error + upload_object list" where
  "prepare_upload embeddings i [] = Inr []"
| "prepare_upload embeddings i (obj # objs) =
     (if i < length embeddings
      then (case prepare_upload embeddings (Suc i) objs of
              Inl e \<Rightarrow> Inl e
            | Inr upload_objects \<Rightarrow> Inr (make_upload_object obj (embeddings ! i) # upload_objects))
      else Inl IndexError)"

text \<open>
  Lines 183 to 203: nothing is embedded and nothing is handed to the uploader when no
  object of the batch was cropped.
\<close>

definition embed_and_prepare ::
  "'p embedding_generator \<Rightarrow> 'p cropped_object list \<Rightarrow> py_error + upload_object list" where
  "embed_and_prepare embedding_generator cropped_objects =
     (if cropped_objects = [] then Inr []
      else let imgs = map obj_image cropped_objects;
               embeddings = generate_embeddings embedding_generator imgs
           in prepare_upload embeddings 0 cropped_objects)"

text \<open>Lines 152 to 203: one batch, up to the list handed to the uploader.\<close>

definition process_batch ::
  "rasteriser \<Rightarrow> 'p::zero image_processor \<Rightarrow> 'p embedding_generator \<Rightarrow> coco_data
     \<Rightarrow> annotation list \<Rightarrow> py_error + upload_object list" where
  "process_batch cover image_processor embedding_generator coco batch_annotations =
     (case crop_batch cover image_processor (image_data (images coco) batch_annotations)
             (categories coco) batch_annotations of
        Inl e \<Rightarrow> Inl e
      | Inr cropped_objects \<Rightarrow> embed_and_prepare embedding_generator cropped_objects)"

text \<open>
  \<^verbatim>\<open>upload_batch\<close> of qdrant_uploader.py. The storage client is outside the
  repository; the store is the list of the upsert calls made so far, each with the
  points it was handed. An empty list makes no call.
\<close>

type_synonym store = "upload_object list list"

definition upload_batch :: "upload_object list \<Rightarrow> store \<Rightarrow> store" where
  "upload_batch objects st = (if objects = [] then st else st @ [objects])"

text \<open>
  Line 148 and 149: the slices \<^verbatim>\<open>annotations[i:i+batch_size]\<close> for i in
  \<^verbatim>\<open>range(0, total, batch_size)\<close>, for a positive batch size.
\<close>

function batches :: "nat \<Rightarrow> 'a list \<Rightarrow> 'a list list" where
  "batches n xs = (if n = 0 \<or> xs = [] then [] else take n xs # batches n (drop n xs))"
  by pat_completeness auto
termination
  by (relation "measure (\<lambda>(n, xs). length xs)") auto

declare batches.simps [simp del]

text \<open>
  The batch loop inside the try block of \<^verbatim>\<open>main\<close>: an exception of a batch is caught
  by the handler at the end of main, which returns 1; the store keeps what the earlier
  batches uploaded.
\<close>

fun run_batches ::
  "rasteriser \<Rightarrow> 'p::zero image_processor \<Rightarrow> 'p embedding_generator \<Rightarrow> coco_data
     \<Rightarrow> annotation list list \<Rightarrow> store \<Rightarrow> int \<times> store" where
  "run_batches cover image_processor embedding_generator coco [] st = (0, st)"
| "run_batches cover image_processor embedding_generator coco (b # bs) st =
     (case process_batch cover image_processor embedding_generator coco b of
        Inl e \<Rightarrow> (1, st)
      | Inr upload_objects \<Rightarrow>
          run_batches cover image_processor embedding_generator coco bs
            (upload_batch upload_objects st))"

text \<open>
  Lines 143 to 219. \<^verbatim>\<open>range\<close> raises ValueError for a step of zero and is empty for a
  negative step.
\<close>

definition main_loop ::
  "rasteriser \<Rightarrow> 'p::zero image_processor \<Rightarrow> 'p embedding_generator \<Rightarrow> coco_data
     \<Rightarrow> int \<Rightarrow> store \<Rightarrow> int \<times> store" where
  "main_loop cover image_processor embedding_generator coco batch_size st =
     (if batch_size = 0 then (1, st)
      else if batch_size < 0 then (0, st)
      else run_batches cover image_processor embedding_generator coco
             (batches (nat batch_size) (annotations coco)) st)"


section \<open>Example data\<close>

text \<open>The 300 by 200 white test image of tests/test_image_processor.py.\<close>

datatype rgb = RGB nat nat nat

instantiation rgb :: zero
begin
definition zero_rgb :: rgb where "zero_rgb = RGB 0 0 0"
instance ..
end

definition test_image :: "rgb image" where
  "test_image = new_image 300 200 (RGB 255 255 255)"

definition test_processor :: "bool \<Rightarrow> rgb image_processor" where
  "test_processor use_seg =
     \<lparr>images_dir = (\<lambda>name. if name = ''test_image.jpg'' then Some test_image else None),
      use_segmentation = use_seg\<rparr>"

text \<open>A 4 by 3 image, small enough to rasterise polygons on it by evaluation.\<close>

definition small_image :: "rgb image" where
  "small_image = new_image 4 3 (RGB 255 255 255)"

text \<open>
  A run over three annotations. The second refers to an image whose file does not
  load; the embedding service of the example answers each region with its width and
  height, so that the vectors show which region they belong to.
\<close>

definition example_annotations :: "annotation list" where
  "example_annotations =
     [\<lparr>ann_id = 11, image_id = 1, category_id = 2, bbox = Some [50, 40, 100, 80],
       segmentation = None, area = Some 8000, iscrowd = None\<rparr>,
      \<lparr>ann_id = 12, image_id = 2, category_id = 1, bbox = Some [5, 5, 20, 20],
       segmentation = None, area = Some 400, iscrowd = Some 0\<rparr>,
      \<lparr>ann_id = 13, image_id = 1, category_id = 1, bbox = Some [250, 150, 100, 100],
       segmentation = None, area = None, iscrowd = Some 1\<rparr>]"

definition example_coco :: coco_data where
  "example_coco =
     \<lparr>images = [\<lparr>img_id = 1, file_name = ''test_image.jpg''\<rparr>,
                \<lparr>img_id = 2, file_name = ''missing.jpg''\<rparr>],
      annotations = example_annotations,
      categories = [\<lparr>cat_id = 1, cat_name = ''cat''\<rparr>, \<lparr>cat_id = 2, cat_name = ''dog''\<rparr>]\<rparr>"

definition size_vectors :: "rgb image list \<Rightarrow> vector list" where
  "size_vectors imgs = map (\<lambda>im. [real_of_int (width im), real_of_int (height im)]) imgs"

definition example_generator :: "rgb embedding_generator" where
  "example_generator = \<lparr>vector_size = 2, embed = (\<lambda>imgs. Inr (size_vectors imgs))\<rparr>"

text \<open>A service that answers with one vector too many, and one with one too few.\<close>

definition long_generator :: "rgb embedding_generator" where
  "long_generator = \<lparr>vector_size = 2, embed = (\<lambda>imgs. Inr (size_vectors imgs @ [[7, 7]]))\<rparr>"

definition short_generator :: "rgb embedding_generator" where
  "short_generator = \<lparr>vector_size = 2, embed = (\<lambda>imgs. Inr (butlast (size_vectors imgs)))\<rparr>"

definition example_uploads :: "upload_object list" where
  "example_uploads =
     [\<lparr>up_id = 11, up_vector = [100, 80],
       up_payload = \<lparr>p_image_id = 1, p_file_name = ''test_image.jpg'', p_category_id = 2,
                     p_category_name = ''dog'', p_bbox = Some [50, 40, 100, 80],
                     p_segmentation = None, p_area = Some 8000, p_iscrowd = 0\<rparr>\<rparr>,
      \<lparr>up_id = 13, up_vector = [50, 50],
       up_payload = \<lparr>p_image_id = 1, p_file_name = ''test_image.jpg'', p_category_id = 1,
                     p_category_name = ''cat'', p_bbox = Some [250, 150, 100, 100],
                     p_segmentation = None, p_area = None, p_iscrowd = 1\<rparr>\<rparr>]"

text \<open>The two objects of the example that are cropped.\<close>

definition example_objects :: "rgb cropped_object list" where
  "example_objects =
     [\<lparr>obj_image = crop test_image (50, 40, 150, 120),
       obj_annotation = example_annotations ! 0,
       obj_image_info = \<lparr>img_id = 1, file_name = ''test_image.jpg''\<rparr>,
       obj_category = \<lparr>cat_id = 2, cat_name = ''dog''\<rparr>\<rparr>,
      \<lparr>obj_image = crop test_image (250, 150, 300, 200),
       obj_annotation = example_annotations ! 2,
       obj_image_info = \<lparr>img_id = 1, file_name = ''test_image.jpg''\<rparr>,
       obj_category = \<lparr>cat_id = 1, cat_name = ''cat''\<rparr>\<rparr>]"


section \<open>Basic facts\<close>

lemma py_int_of_int [simp]: "py_int (of_int k) = k"
  by (simp add: py_int_def)

lemma py_int_numeral [simp]:
  "py_int (numeral k) = numeral k" "py_int (- numeral k) = - numeral k"
  "py_int 0 = 0" "py_int 1 = 1"
  by (simp_all add: py_int_def)

lemma width_crop [simp]: "width (crop im (l, u, r, b)) = r - l"
  and height_crop [simp]: "height (crop im (l, u, r, b)) = b - u"
  by (simp_all add: crop_def)


lemma py_int_nonneg: "0 \<le> r \<Longrightarrow> py_int r = \<lfloor>r\<rfloor>"
  by (simp add: py_int_def)

lemma crop_object_bbox_path:
  assumes "load_image self image_filename = Some im" and "\<not> use_segmentation self"
  shows "crop_object cover self image_filename (Some [x0, y0, w0, h0]) seg
           = map_sum id Some (crop_by_bbox im [x0, y0, w0, h0])"
  using assms by (simp add: crop_object_def truthy_def)

lemma width_test_image [simp]: "width test_image = 300"
  and height_test_image [simp]: "height test_image = 200"
  by (simp_all add: test_image_def new_image_def)

lemma width_draw_polygon [simp]: "width (draw_polygon cover m pts v) = width m"
  and height_draw_polygon [simp]: "height (draw_polygon cover m pts v) = height m"
  by (simp_all add: draw_polygon_def)

lemma inside_draw_polygon [simp]: "inside (draw_polygon cover m pts v) p = inside m p"
  by (simp add: inside_def)

lemma width_draw_polygons [simp]: "width (draw_polygons cover m seg) = width m"
  by (induction seg arbitrary: m) (simp_all add: Let_def)

lemma height_draw_polygons [simp]: "height (draw_polygons cover m seg) = height m"
  by (induction seg arbitrary: m) (simp_all add: Let_def)

lemma width_segmentation_mask [simp]: "width (segmentation_mask cover im seg) = width im"
  and height_segmentation_mask [simp]: "height (segmentation_mask cover im seg) = height im"
  by (simp_all add: segmentation_mask_def new_image_def)

lemma draw_polygons_filter:
  "draw_polygons cover m seg
     = draw_polygons cover m (filter (\<lambda>polygon. 3 \<le> length (polygon_points polygon)) seg)"
  by (induction seg arbitrary: m) (simp_all add: Let_def)

lemma draw_polygons_degenerate:
  "\<forall>polygon \<in> set seg. length (polygon_points polygon) < 3 \<Longrightarrow> draw_polygons cover m seg = m"
  by (induction seg arbitrary: m) (simp_all add: Let_def)

lemma set_nonzero_pixels:
  "set (nonzero_pixels m) = {p. inside m p \<and> getpixel m p \<noteq> 0}"
  by (auto simp: nonzero_pixels_def inside_def)

lemma getbbox_None_iff: "getbbox m = None \<longleftrightarrow> (\<forall>p. inside m p \<longrightarrow> getpixel m p = 0)"
proof -
  have "nonzero_pixels m = [] \<longleftrightarrow> set (nonzero_pixels m) = {}" by simp
  also have "\<dots> \<longleftrightarrow> (\<forall>p. inside m p \<longrightarrow> getpixel m p = 0)"
    by (simp add: set_nonzero_pixels)
  finally show ?thesis by (simp add: getbbox_def Let_def)
qed

lemma getbbox_degenerate:
  assumes "\<forall>polygon \<in> set seg. length (polygon_points polygon) < 3"
  shows "getbbox (segmentation_mask cover im seg) = None"
  using assms
  by (simp add: getbbox_None_iff segmentation_mask_def draw_polygons_degenerate new_image_def)


lemma width_composite [simp]: "width (composite a b) = width a"
  and height_composite [simp]: "height (composite a b) = height a"
  by (simp_all add: composite_def)


lemma crop_by_segmentation_None:
  assumes "getbbox (segmentation_mask cover im seg) = None"
  shows "crop_by_segmentation cover im seg
           = crop im (0, 0, min 10 (width im), min 10 (height im))"
  using assms by (simp add: crop_by_segmentation_def Let_def)

lemma width_small_image [simp]: "width small_image = 4"
  and height_small_image [simp]: "height small_image = 3"
  by (simp_all add: small_image_def new_image_def)

lemma crop_object_segmentation_path:
  assumes "load_image self image_filename = Some im" and "use_segmentation self"
    and "seg \<noteq> []"
  shows "crop_object cover self image_filename b (Some seg)
           = Inr (Some (crop_by_segmentation cover im seg))"
  using assms by (simp add: crop_object_def truthy_def)


lemma next_category_Inl: "next_category cats cid = Inl e \<Longrightarrow> e = StopIteration"
  by (induction cats) (auto split: if_splits)

lemma next_category_miss:
  "cid \<notin> cat_id ` set cats \<Longrightarrow> next_category cats cid = Inl StopIteration"
  by (induction cats) auto

lemma next_category_Inr:
  "next_category cats cid = Inr cat \<Longrightarrow> cat \<in> set cats \<and> cat_id cat = cid"
  by (induction cats) (auto split: if_splits)

lemma fold_update_None:
  "fold (\<lambda>img d. d(img_id img \<mapsto> img)) xs m k = None
     \<longleftrightarrow> m k = None \<and> k \<notin> img_id ` set xs"
  by (induction xs arbitrary: m) auto

lemma fold_update_Some:
  "fold (\<lambda>img d. d(img_id img \<mapsto> img)) xs m k = Some info
     \<Longrightarrow> m k = Some info \<or> (info \<in> set xs \<and> img_id info = k)"
proof (induction xs arbitrary: m)
  case Nil
  then show ?case by simp
next
  case (Cons a xs)
  from Cons.prems have "fold (\<lambda>img d. d(img_id img \<mapsto> img)) xs (m(img_id a \<mapsto> a)) k = Some info"
    by (simp only: fold.simps o_apply)
  from Cons.IH [OF this] show ?case
    by (cases "img_id a = k") auto
qed

lemma image_data_None:
  "image_data imgs batch k = None \<longleftrightarrow> k \<notin> img_id ` set imgs \<or> k \<notin> image_id ` set batch"
  by (auto simp: image_data_def Let_def fold_update_None)

lemma image_data_Some:
  "image_data imgs batch k = Some info \<Longrightarrow> info \<in> set imgs \<and> img_id info = k"
  using fold_update_Some [of "filter (\<lambda>img. img_id img \<in> set (map image_id batch)) imgs"
      Map.empty k info]
  by (auto simp: image_data_def Let_def)

lemma crop_batch_Inr:
  assumes "crop_batch cover proc idata cats anns = Inr objs"
  shows "map obj_annotation objs = filter (survives cover proc idata) anns
         \<and> (\<forall>obj \<in> set objs.
               idata (image_id (obj_annotation obj)) = Some (obj_image_info obj)
             \<and> next_category cats (category_id (obj_annotation obj)) = Inr (obj_category obj)
             \<and> crop_object cover proc (file_name (obj_image_info obj))
                  (bbox (obj_annotation obj)) (segmentation (obj_annotation obj))
                 = Inr (Some (obj_image obj)))"
  using assms
proof (induction anns arbitrary: objs)
  case Nil
  then show ?case by simp
next
  case (Cons a anns)
  from Cons.prems obtain info cat r rest
    where info: "idata (image_id a) = Some info"
      and cat: "next_category cats (category_id a) = Inr cat"
      and r: "crop_object cover proc (file_name info) (bbox a) (segmentation a) = Inr r"
      and rest: "crop_batch cover proc idata cats anns = Inr rest"
      and objs: "objs = (case r of None \<Rightarrow> rest
                   | Some im \<Rightarrow> \<lparr>obj_image = im, obj_annotation = a,
                                   obj_image_info = info, obj_category = cat\<rparr> # rest)"
    by (auto split: option.splits sum.splits)
  note IH = Cons.IH [OF rest]
  show ?case
  proof (cases r)
    case None
    with info r have "\<not> survives cover proc idata a" by (simp add: survives_def)
    with None objs IH show ?thesis by simp
  next
    case (Some im)
    with info r have "survives cover proc idata a" by (simp add: survives_def)
    with Some objs IH info cat r show ?thesis by simp
  qed
qed

lemma prepare_upload_eq:
  "prepare_upload embeddings i objs =
     (if objs = [] \<or> i + length objs \<le> length embeddings
      then Inr (map2 make_upload_object objs (drop i embeddings))
      else Inl IndexError)"
proof (induction objs arbitrary: i)
  case Nil
  then show ?case by simp
next
  case (Cons obj objs)
  show ?case
  proof (cases "i < length embeddings")
    case True
    then have "drop i embeddings = embeddings ! i # drop (Suc i) embeddings"
      by (simp add: Cons_nth_drop_Suc)
    with True Cons.IH [of "Suc i"] show ?thesis by auto
  next
    case False
    then show ?thesis by simp
  qed
qed

lemma embed_and_prepare_eq:
  assumes "objs \<noteq> []" and "embed gen (map obj_image objs) = Inr results"
  shows "embed_and_prepare gen objs =
           (if length objs \<le> length results then Inr (map2 make_upload_object objs results)
            else Inl IndexError)"
  using assms by (simp add: embed_and_prepare_def generate_embeddings_def prepare_upload_eq)

lemma next_category_steps_miss:
  "cid \<notin> cat_id ` set cats \<Longrightarrow> next_category_steps cats cid = length cats"
  by (induction cats) auto

lemma next_category_first_match:
  assumes "k < length cats" and "cat_id (cats ! k) = cid" and "\<forall>j<k. cat_id (cats ! j) \<noteq> cid"
  shows "next_category cats cid = Inr (cats ! k) \<and> next_category_steps cats cid = k + 1"
  using assms
proof (induction cats arbitrary: k)
  case Nil
  then show ?case by simp
next
  case (Cons c cats)
  show ?case
  proof (cases k)
    case 0
    with Cons.prems show ?thesis by simp
  next
    case (Suc k')
    from Cons.prems(3) Suc have head: "cat_id c \<noteq> cid" by force
    from Cons.prems(3) Suc have "\<forall>j<k'. cat_id (cats ! j) \<noteq> cid" by force
    with Cons.prems(1,2) Suc
    have "next_category cats cid = Inr (cats ! k') \<and> next_category_steps cats cid = k' + 1"
      by (intro Cons.IH) simp_all
    with head Suc show ?thesis by simp
  qed
qed

lemma process_batch_Inr:
  assumes "process_batch cover proc gen coco batch = Inr ups"
  obtains objs where
    "crop_batch cover proc (image_data (images coco) batch) (categories coco) batch = Inr objs"
    and "embed_and_prepare gen objs = Inr ups"
  using assms by (auto simp: process_batch_def split: sum.splits)

lemma embed_and_prepare_Inr:
  assumes "embed_and_prepare gen objs = Inr ups"
  shows "length ups = length objs
         \<and> (\<forall>i < length objs.
               ups ! i = make_upload_object (objs ! i)
                           (generate_embeddings gen (map obj_image objs) ! i))"
proof (cases "objs = []")
  case True
  with assms show ?thesis by (simp add: embed_and_prepare_def)
next
  case False
  let ?embeddings = "generate_embeddings gen (map obj_image objs)"
  from assms False have prep: "prepare_upload ?embeddings 0 objs = Inr ups"
    by (simp add: embed_and_prepare_def Let_def)
  then have len: "length objs \<le> length ?embeddings"
    and ups: "ups = map2 make_upload_object objs ?embeddings"
    using False by (auto simp: prepare_upload_eq split: if_splits)
  from len ups show ?thesis by simp
qed

lemma batches_single:
  assumes "0 < n" and "xs \<noteq> []" and "length xs \<le> n"
  shows "batches n xs = [xs]"
proof -
  have "batches n xs = take n xs # batches n (drop n xs)"
    using assms by (subst batches.simps) simp
  also have "take n xs = xs" using assms by simp
  also have "batches n (drop n xs) = []"
    using assms by (subst batches.simps) simp
  finally show ?thesis .
qed

lemma example_image_data:
  "image_data (images example_coco) example_annotations
     = [1 \<mapsto> \<lparr>img_id = 1, file_name = ''test_image.jpg''\<rparr>,
        2 \<mapsto> \<lparr>img_id = 2, file_name = ''missing.jpg''\<rparr>]"
  by (simp add: image_data_def example_coco_def example_annotations_def)

lemma example_crop_batch:
  "crop_batch even_odd_fill (test_processor False)
     (image_data (images example_coco) example_annotations) (categories example_coco)
     example_annotations = Inr example_objects"
  unfolding example_image_data
  by (simp add: example_coco_def example_annotations_def example_objects_def
      crop_object_def load_image_def test_processor_def truthy_def)

lemma example_embed_and_prepare:
  "embed_and_prepare example_generator example_objects = Inr example_uploads"
  by (simp add: embed_and_prepare_def generate_embeddings_def example_generator_def
      size_vectors_def example_objects_def example_uploads_def make_upload_object_def
      example_annotations_def)

lemma example_process_batch:
  "process_batch even_odd_fill (test_processor False) example_generator example_coco
     example_annotations = Inr example_uploads"
  by (simp add: process_batch_def example_crop_batch example_embed_and_prepare)

lemma process_batch_cropped:
  assumes "crop_batch cover proc (image_data (images coco) batch) (categories coco) batch
             = Inr objs"
  shows "process_batch cover proc gen coco batch = embed_and_prepare gen objs"
  using assms by (simp add: process_batch_def)

lemma example_regions:
  "map obj_image example_objects
     = [crop test_image (50, 40, 150, 120), crop test_image (250, 150, 300, 200)]"
  by (simp add: example_objects_def)

lemma example_objects_length: "example_objects \<noteq> []" "length example_objects = 2"
  by (simp_all add: example_objects_def)

lemma example_zip:
  "map2 make_upload_object example_objects ([100, 80] # [50, 50] # surplus) = example_uploads"
  by (simp add: example_objects_def example_uploads_def make_upload_object_def
      example_annotations_def)

lemma example_batches: "batches 32 (annotations example_coco) = [example_annotations]"
proof -
  have "annotations example_coco = example_annotations"
    by (simp add: example_coco_def)
  moreover have "batches 32 example_annotations = [example_annotations]"
    by (rule batches_single) (simp_all add: example_annotations_def)
  ultimately show ?thesis by simp
qed

lemma example_uploads_nonempty: "example_uploads \<noteq> []"
  by (simp add: example_uploads_def)

lemma long_service:
  "embed long_generator (map obj_image example_objects) = Inr [[100, 80], [50, 50], [7, 7]]"
  by (simp add: long_generator_def size_vectors_def example_regions)

lemma short_service:
  "embed short_generator (map obj_image example_objects) = Inr [[100, 80]]"
  by (simp add: short_generator_def size_vectors_def example_regions)
















section \<open>Mode selection in crop_object\<close>

text \<open>
  C10. When the image loads and the segmentation path is not taken (segmentation
  disabled, absent or empty), crop_object uses the bounding box only if it is present
  and has exactly four elements; a missing box and a box of any other length give None.
\<close>

theorem crop_object_bbox_length:
  assumes "load_image self image_filename = Some im"
    and "\<not> use_segmentation self \<or> seg = None \<or> seg = Some []"
  shows "crop_object cover self image_filename b seg =
           (case b of
              None \<Rightarrow> Inr None
            | Some xs \<Rightarrow> if length xs = 4 then map_sum id Some (crop_by_bbox im xs)
                         else Inr None)"
  using assms by (auto simp: crop_object_def truthy_def split: option.splits)

theorem crop_object_bbox_length_witness:
  "load_image (test_processor True) ''test_image.jpg'' = Some test_image
   \<and> crop_object even_odd_fill (test_processor True) ''test_image.jpg''
        (Some [50, 40, 100]) (Some []) = Inr None"
  using crop_object_bbox_length [of "test_processor True" "''test_image.jpg''" test_image
      "Some []" even_odd_fill "Some [50, 40, 100]"]
  by (simp add: load_image_def test_processor_def)

section \<open>Zero vectors when the embedding service fails\<close>

text \<open>
  C4. For a non-empty list of n images, when the call to the embedding service raises,
  generate_embeddings returns n vectors, each the zero vector of the configured size.
\<close>

theorem generate_embeddings_zero_fallback:
  assumes "imgs \<noteq> []" and "embed self imgs = Inl e"
  shows "generate_embeddings self imgs
           = replicate (length imgs) (replicate (nat (vector_size self)) 0)"
  using assms by (simp add: generate_embeddings_def)

theorem generate_embeddings_zero_fallback_witness:
  "generate_embeddings \<lparr>vector_size = 3, embed = (\<lambda>imgs. Inl ServiceError)\<rparr>
     [test_image, test_image] = [[0, 0, 0], [0, 0, 0]]"
  using generate_embeddings_zero_fallback
    [of "[test_image, test_image]" "\<lparr>vector_size = 3, embed = (\<lambda>imgs. Inl ServiceError)\<rparr>"
        ServiceError]
  by (simp add: numeral_3_eq_3)

section \<open>Cropping by bounding box\<close>

text \<open>
  C1, as the spec states it, fails: for the box [50, 40, -10, 80] of the repository's
  own test the clamped width is -10, and crop_object returns the 10 by 10 corner of the
  image instead of a failure.
\<close>

theorem crop_by_bbox_degenerate_counterexample:
  "crop_object even_odd_fill (test_processor False) ''test_image.jpg''
     (Some [50, 40, - 10, 80]) None = Inr (Some (crop test_image (0, 0, 10, 10)))
   \<and> width (crop test_image (0, 0, 10, 10)) = 10
   \<and> height (crop test_image (0, 0, 10, 10)) = 10"
  by (simp add: crop_object_def truthy_def load_image_def test_processor_def test_image_def new_image_def)

text \<open>
  C1, amended. When the clamped width or the clamped height is below 1, _crop_by_bbox
  returns the crop of the image at (0, 0) of size (min(10, width), min(10, height)),
  and crop_object on the bounding-box path returns that region, not a failure.
\<close>

theorem crop_by_bbox_degenerate_fallback:
  assumes "min (py_int w0) (width im - max 0 (py_int x0)) < 1
           \<or> min (py_int h0) (height im - max 0 (py_int y0)) < 1"
  shows "crop_by_bbox im [x0, y0, w0, h0]
           = Inr (crop im (0, 0, min 10 (width im), min 10 (height im)))
         \<and> (load_image self image_filename = Some im \<and> \<not> use_segmentation self \<longrightarrow>
              crop_object cover self image_filename (Some [x0, y0, w0, h0]) seg
                = Inr (Some (crop im (0, 0, min 10 (width im), min 10 (height im)))))"
proof -
  have fallback: "crop_by_bbox im [x0, y0, w0, h0]
           = Inr (crop im (0, 0, min 10 (width im), min 10 (height im)))"
    using assms by (simp add: Let_def)
  then show ?thesis
    by (simp add: crop_object_bbox_path)
qed

theorem crop_by_bbox_degenerate_fallback_witness:
  "crop_by_bbox test_image [250, 150, 0, 100] = Inr (crop test_image (0, 0, 10, 10))
   \<and> crop_object even_odd_fill (test_processor False) ''test_image.jpg''
        (Some [250, 150, 0, 100]) None = Inr (Some (crop test_image (0, 0, 10, 10)))"
  using crop_by_bbox_degenerate_fallback [of 0 test_image 250 100 150 "test_processor False"
      "''test_image.jpg''" even_odd_fill None]
  by (simp add: load_image_def test_processor_def)

text \<open>
  C6, as the spec states it, fails: the box [10, 10, 50.5, 50] lies inside the 300 by
  200 image, and the returned region is 50 wide, not 50.5.
\<close>

theorem crop_by_bbox_dimensions_counterexample:
  "crop_by_bbox test_image [10, 10, 101 / 2, 50] = Inr (crop test_image (10, 10, 60, 60))
   \<and> real_of_int (width (crop test_image (10, 10, 60, 60))) \<noteq> 101 / 2"
  by (simp add: test_image_def new_image_def py_int_def)

text \<open>
  C6, amended. With x and y truncated toward zero and clamped to at least 0, and the
  width and height truncated toward zero and clamped to the space right of x and below
  y, a box whose clamped dimensions are at least 1 yields the crop at (x, y) with
  exactly the clamped dimensions; for a box fully inside the image these are the
  truncated x, y, width and height of the box, hence (w, h) itself for integers.
\<close>

theorem crop_by_bbox_dimensions:
  assumes "cx = max 0 (py_int x0)" and "cy = max 0 (py_int y0)"
    and "cw = min (py_int w0) (width im - cx)" and "ch = min (py_int h0) (height im - cy)"
    and "1 \<le> cw" and "1 \<le> ch"
  shows "crop_by_bbox im [x0, y0, w0, h0] = Inr (crop im (cx, cy, cx + cw, cy + ch))
         \<and> width (crop im (cx, cy, cx + cw, cy + ch)) = cw
         \<and> height (crop im (cx, cy, cx + cw, cy + ch)) = ch
         \<and> (0 \<le> x0 \<and> 0 \<le> y0 \<and> x0 + w0 \<le> real_of_int (width im)
              \<and> y0 + h0 \<le> real_of_int (height im)
            \<longrightarrow> cx = py_int x0 \<and> cy = py_int y0 \<and> cw = py_int w0 \<and> ch = py_int h0)"
proof -
  have "\<not> (cw < 1 \<or> ch < 1)"
    using assms(5,6) by simp
  then have eq: "crop_by_bbox im [x0, y0, w0, h0] = Inr (crop im (cx, cy, cx + cw, cy + ch))"
    unfolding assms(1-4) by (simp add: Let_def)
  have inside_box: "cx = py_int x0 \<and> cy = py_int y0 \<and> cw = py_int w0 \<and> ch = py_int h0"
    if box: "0 \<le> x0" "0 \<le> y0" "x0 + w0 \<le> real_of_int (width im)"
      "y0 + h0 \<le> real_of_int (height im)"
  proof -
    have w_pos: "0 \<le> w0" and h_pos: "0 \<le> h0"
      using assms by (auto simp: py_int_def split: if_splits)
    have "\<lfloor>x0\<rfloor> + \<lfloor>w0\<rfloor> \<le> \<lfloor>x0 + w0\<rfloor>" by (rule le_floor_add)
    also have "\<dots> \<le> width im" using box(3) by (simp add: floor_le_iff)
    finally have xw: "\<lfloor>w0\<rfloor> \<le> width im - \<lfloor>x0\<rfloor>" by simp
    have "\<lfloor>y0\<rfloor> + \<lfloor>h0\<rfloor> \<le> \<lfloor>y0 + h0\<rfloor>" by (rule le_floor_add)
    also have "\<dots> \<le> height im" using box(4) by (simp add: floor_le_iff)
    finally have yh: "\<lfloor>h0\<rfloor> \<le> height im - \<lfloor>y0\<rfloor>" by simp
    show ?thesis
      using assms(1-4) box(1,2) w_pos h_pos xw yh by (simp add: py_int_nonneg)
  qed
  show ?thesis
    using eq inside_box by simp
qed

theorem crop_by_bbox_dimensions_witness:
  "crop_by_bbox test_image [50, 40, 100, 80] = Inr (crop test_image (50, 40, 150, 120))
   \<and> width (crop test_image (50, 40, 150, 120)) = 100
   \<and> height (crop test_image (50, 40, 150, 120)) = 80
   \<and> crop_by_bbox test_image [250, 150, 100, 100] = Inr (crop test_image (250, 150, 300, 200))
   \<and> width (crop test_image (250, 150, 300, 200)) = 50
   \<and> height (crop test_image (250, 150, 300, 200)) = 50"
proof -
  have inner: "crop_by_bbox test_image [50, 40, 100, 80]
          = Inr (crop test_image (50, 40, 50 + 100, 40 + 80))
        \<and> width (crop test_image (50, 40, 50 + 100, 40 + 80)) = 100
        \<and> height (crop test_image (50, 40, 50 + 100, 40 + 80)) = 80
        \<and> (0 \<le> (50::real) \<and> 0 \<le> (40::real)
              \<and> 50 + 100 \<le> real_of_int (width test_image)
              \<and> 40 + 80 \<le> real_of_int (height test_image)
            \<longrightarrow> (50::int) = py_int 50 \<and> (40::int) = py_int 40
                \<and> (100::int) = py_int 100 \<and> (80::int) = py_int 80)"
    by (rule crop_by_bbox_dimensions) simp_all
  have outer: "crop_by_bbox test_image [250, 150, 100, 100]
          = Inr (crop test_image (250, 150, 250 + 50, 150 + 50))
        \<and> width (crop test_image (250, 150, 250 + 50, 150 + 50)) = 50
        \<and> height (crop test_image (250, 150, 250 + 50, 150 + 50)) = 50
        \<and> (0 \<le> (250::real) \<and> 0 \<le> (150::real)
              \<and> 250 + 100 \<le> real_of_int (width test_image)
              \<and> 150 + 100 \<le> real_of_int (height test_image)
            \<longrightarrow> (250::int) = py_int 250 \<and> (150::int) = py_int 150
                \<and> (50::int) = py_int 100 \<and> (50::int) = py_int 100)"
    by (rule crop_by_bbox_dimensions) simp_all
  from inner outer show ?thesis by simp
qed

section \<open>Cropping by segmentation\<close>

text \<open>
  C2, as the spec states it, fails in its second half: a segmentation whose only
  polygon has two points sets no mask pixel, and crop_object returns the 10 by 10
  corner of the image instead of a failure.
\<close>

theorem crop_by_segmentation_empty_mask_counterexample:
  "crop_object even_odd_fill (test_processor True) ''test_image.jpg'' None
     (Some [[1, 1, 2, 2]]) = Inr (Some (crop test_image (0, 0, 10, 10)))"
proof -
  have "getbbox (segmentation_mask even_odd_fill test_image [[1, 1, 2, 2]]) = None"
    by (rule getbbox_degenerate) simp
  then have "crop_by_segmentation even_odd_fill test_image [[1, 1, 2, 2]]
               = crop test_image (0, 0, 10, 10)"
    by (simp add: crop_by_segmentation_None)
  then show ?thesis
    by (simp add: crop_object_segmentation_path load_image_def test_processor_def)
qed

text \<open>
  C2, amended. A polygon with fewer than three coordinate pairs contributes no pixel:
  the mask is the mask of the remaining polygons, and it is empty when every polygon
  is degenerate. When the mask is empty, _crop_by_segmentation returns the crop of the
  image at (0, 0) of size (min(10, width), min(10, height)).
\<close>

theorem crop_by_segmentation_degenerate:
  "segmentation_mask cover im seg
     = segmentation_mask cover im (filter (\<lambda>polygon. 3 \<le> length (polygon_points polygon)) seg)
   \<and> ((\<forall>polygon \<in> set seg. length (polygon_points polygon) < 3) \<longrightarrow>
          getbbox (segmentation_mask cover im seg) = None)
   \<and> (getbbox (segmentation_mask cover im seg) = None \<longrightarrow>
          crop_by_segmentation cover im seg
            = crop im (0, 0, min 10 (width im), min 10 (height im)))"
  using draw_polygons_filter [of cover "new_image (width im) (height im) 0" seg]
  by (simp add: segmentation_mask_def getbbox_degenerate [unfolded segmentation_mask_def]
      crop_by_segmentation_None [unfolded segmentation_mask_def])

theorem crop_by_segmentation_degenerate_witness:
  "segmentation_mask even_odd_fill small_image [[1, 1, 2, 2], [0, 0, 3, 0, 3, 2], [5]]
     = segmentation_mask even_odd_fill small_image [[0, 0, 3, 0, 3, 2]]
   \<and> getbbox (segmentation_mask even_odd_fill small_image [[1, 1, 2, 2], [5]]) = None
   \<and> crop_by_segmentation even_odd_fill small_image [[1, 1, 2, 2], [5]]
        = crop small_image (0, 0, 4, 3)"
proof -
  note mixed = crop_by_segmentation_degenerate
      [of even_odd_fill small_image "[[1, 1, 2, 2], [0, 0, 3, 0, 3, 2], [5]]"]
  note degenerate = crop_by_segmentation_degenerate
      [of even_odd_fill small_image "[[1, 1, 2, 2], [5]]"]
  have kept: "segmentation_mask even_odd_fill small_image [[1, 1, 2, 2], [0, 0, 3, 0, 3, 2], [5]]
     = segmentation_mask even_odd_fill small_image [[0, 0, 3, 0, 3, 2]]"
    using mixed [THEN conjunct1] by simp
  have empty: "getbbox (segmentation_mask even_odd_fill small_image [[1, 1, 2, 2], [5]]) = None"
    using degenerate [THEN conjunct2, THEN conjunct1] by simp
  have "crop_by_segmentation even_odd_fill small_image [[1, 1, 2, 2], [5]]
        = crop small_image (0, 0, 4, 3)"
    using degenerate [THEN conjunct2, THEN conjunct2] empty by simp
  with kept empty show ?thesis by blast
qed




section \<open>Resolving the image and the category of an annotation\<close>

text \<open>
  C9, as the spec states it, fails: resolving a category walks the list of categories
  for every annotation, and the number of categories it inspects is not bounded by any
  constant. In the example the category with id 2 is found after two comparisons.
\<close>

theorem category_lookup_counterexample:
  "next_category_steps (categories example_coco) 2 = 2
   \<and> \<not> (\<exists>bound. \<forall>cats cid. next_category_steps cats cid \<le> bound)"
proof
  show "next_category_steps (categories example_coco) 2 = 2"
    by (simp add: example_coco_def)
  show "\<not> (\<exists>bound. \<forall>cats cid. next_category_steps cats cid \<le> bound)"
  proof
    assume "\<exists>bound. \<forall>cats cid. next_category_steps cats cid \<le> bound"
    then obtain bound where bound: "\<And>cats cid. next_category_steps cats cid \<le> bound"
      by blast
    let ?cats = "replicate (Suc bound) \<lparr>cat_id = 0, cat_name = ''c''\<rparr>"
    have "next_category_steps ?cats 1 = length ?cats"
      by (rule next_category_steps_miss) auto
    with bound [of ?cats 1] show False by simp
  qed
qed

text \<open>
  C9, amended. Resolving the category of an annotation is a linear scan of the list
  of categories, repeated for each annotation: it inspects k + 1 categories when the
  first one with the wanted id is at index k, and all of them when there is none. The
  image records are indexed by id, but per batch: the index of a batch holds no image
  that the annotations of the batch do not refer to.
\<close>

theorem category_lookup_linear_scan:
  "(k < length cats \<and> cat_id (cats ! k) = cid \<and> (\<forall>j<k. cat_id (cats ! j) \<noteq> cid) \<longrightarrow>
      next_category cats cid = Inr (cats ! k) \<and> next_category_steps cats cid = k + 1)
   \<and> (cid \<notin> cat_id ` set cats \<longrightarrow>
      next_category cats cid = Inl StopIteration \<and> next_category_steps cats cid = length cats)
   \<and> (iid \<notin> image_id ` set batch \<longrightarrow> image_data imgs batch iid = None)"
  using next_category_first_match [of k cats cid]
  by (simp add: next_category_miss next_category_steps_miss image_data_None)

theorem category_lookup_linear_scan_witness:
  "next_category (categories example_coco) 2 = Inr \<lparr>cat_id = 2, cat_name = ''dog''\<rparr>
   \<and> next_category_steps (categories example_coco) 2 = 2
   \<and> next_category (categories example_coco) 5 = Inl StopIteration
   \<and> next_category_steps (categories example_coco) 5 = 2
   \<and> image_data (images example_coco) [example_annotations ! 0] 2 = None"
proof -
  note found = category_lookup_linear_scan
      [of 1 "categories example_coco" 2 2 "[example_annotations ! 0]" "images example_coco",
        THEN conjunct1]
  note missed = category_lookup_linear_scan
      [of 1 "categories example_coco" 5 2 "[example_annotations ! 0]" "images example_coco"]
  have "next_category (categories example_coco) 2 = Inr \<lparr>cat_id = 2, cat_name = ''dog''\<rparr>
        \<and> next_category_steps (categories example_coco) 2 = 2"
    using found by (simp add: example_coco_def less_Suc_eq)
  moreover have "next_category (categories example_coco) 5 = Inl StopIteration
        \<and> next_category_steps (categories example_coco) 5 = 2"
    using missed [THEN conjunct2, THEN conjunct1] by (simp add: example_coco_def)
  moreover have "image_data (images example_coco) [example_annotations ! 0] 2 = None"
    using missed [THEN conjunct2, THEN conjunct2]
    by (simp add: example_annotations_def)
  ultimately show ?thesis by blast
qed

section \<open>The batch pipeline\<close>

text \<open>
  C7. When a batch reaches the uploader, the cropped objects are the annotations of
  the batch whose crop is not None, in the order of the batch; there is one record per
  cropped object, in the same order; record i carries vector i of the embedding
  result, the id of annotation i, and a payload with the image id, the file name of
  the image, the category id and name, the bounding box, the segmentation, the area
  and the crowd flag (0 when absent) of that annotation.
\<close>

theorem process_batch_positional:
  assumes "process_batch cover proc gen coco batch = Inr ups"
  shows "\<exists>objs.
           crop_batch cover proc (image_data (images coco) batch) (categories coco) batch
             = Inr objs
         \<and> map obj_annotation objs
             = filter (survives cover proc (image_data (images coco) batch)) batch
         \<and> length ups = length objs
         \<and> (\<forall>i < length objs. \<exists>info cat.
               let ann = obj_annotation (objs ! i) in
                 image_data (images coco) batch (image_id ann) = Some info
               \<and> next_category (categories coco) (category_id ann) = Inr cat
               \<and> crop_object cover proc (file_name info) (bbox ann) (segmentation ann)
                   = Inr (Some (obj_image (objs ! i)))
               \<and> ups ! i =
                   \<lparr>up_id = ann_id ann,
                    up_vector = generate_embeddings gen (map obj_image objs) ! i,
                    up_payload =
                      \<lparr>p_image_id = image_id ann,
                       p_file_name = file_name info,
                       p_category_id = category_id ann,
                       p_category_name = cat_name cat,
                       p_bbox = bbox ann,
                       p_segmentation = segmentation ann,
                       p_area = area ann,
                       p_iscrowd = (case iscrowd ann of None \<Rightarrow> 0 | Some c \<Rightarrow> c)\<rparr>\<rparr>)"
proof -
  let ?idata = "image_data (images coco) batch"
  from assms obtain objs
    where crop: "crop_batch cover proc ?idata (categories coco) batch = Inr objs"
      and prep: "embed_and_prepare gen objs = Inr ups"
    by (rule process_batch_Inr)
  note joined = crop_batch_Inr [OF crop]
  note zipped = embed_and_prepare_Inr [OF prep]
  have "\<exists>info cat.
          let ann = obj_annotation (objs ! i) in
            ?idata (image_id ann) = Some info
          \<and> next_category (categories coco) (category_id ann) = Inr cat
          \<and> crop_object cover proc (file_name info) (bbox ann) (segmentation ann)
              = Inr (Some (obj_image (objs ! i)))
          \<and> ups ! i =
              \<lparr>up_id = ann_id ann,
               up_vector = generate_embeddings gen (map obj_image objs) ! i,
               up_payload =
                 \<lparr>p_image_id = image_id ann,
                  p_file_name = file_name info,
                  p_category_id = category_id ann,
                  p_category_name = cat_name cat,
                  p_bbox = bbox ann,
                  p_segmentation = segmentation ann,
                  p_area = area ann,
                  p_iscrowd = (case iscrowd ann of None \<Rightarrow> 0 | Some c \<Rightarrow> c)\<rparr>\<rparr>"
    if i: "i < length objs" for i
  proof -
    let ?obj = "objs ! i"
    let ?ann = "obj_annotation ?obj"
    from i have mem: "?obj \<in> set objs" by simp
    from joined mem have info: "?idata (image_id ?ann) = Some (obj_image_info ?obj)"
      and cat: "next_category (categories coco) (category_id ?ann) = Inr (obj_category ?obj)"
      and im: "crop_object cover proc (file_name (obj_image_info ?obj)) (bbox ?ann)
                 (segmentation ?ann) = Inr (Some (obj_image ?obj))"
      by blast+
    from image_data_Some [OF info] have iid: "img_id (obj_image_info ?obj) = image_id ?ann"
      by simp
    from next_category_Inr [OF cat] have cid: "cat_id (obj_category ?obj) = category_id ?ann"
      by simp
    from zipped i have "ups ! i = make_upload_object ?obj
                          (generate_embeddings gen (map obj_image objs) ! i)"
      by simp
    with iid cid have "ups ! i =
              \<lparr>up_id = ann_id ?ann,
               up_vector = generate_embeddings gen (map obj_image objs) ! i,
               up_payload =
                 \<lparr>p_image_id = image_id ?ann,
                  p_file_name = file_name (obj_image_info ?obj),
                  p_category_id = category_id ?ann,
                  p_category_name = cat_name (obj_category ?obj),
                  p_bbox = bbox ?ann,
                  p_segmentation = segmentation ?ann,
                  p_area = area ?ann,
                  p_iscrowd = (case iscrowd ?ann of None \<Rightarrow> 0 | Some c \<Rightarrow> c)\<rparr>\<rparr>"
      by (simp add: make_upload_object_def)
    with info cat im show ?thesis
      unfolding Let_def by blast
  qed
  with crop joined zipped show ?thesis by blast
qed

theorem process_batch_positional_witness:
  "process_batch even_odd_fill (test_processor False) example_generator example_coco
     example_annotations = Inr example_uploads
   \<and> map up_id example_uploads
       = map ann_id (filter (survives even_odd_fill (test_processor False)
                               (image_data (images example_coco) example_annotations))
                       example_annotations)
   \<and> map up_id example_uploads = [11, 13]"
proof -
  let ?idata = "image_data (images example_coco) example_annotations"
  let ?gen = "example_generator"
  have run: "process_batch even_odd_fill (test_processor False) ?gen example_coco
     example_annotations = Inr example_uploads"
    by (rule example_process_batch)
  from process_batch_positional [OF run] obtain objs :: "rgb cropped_object list"
    where kept: "map obj_annotation objs
                   = filter (survives even_odd_fill (test_processor False) ?idata)
                       example_annotations"
      and len: "length example_uploads = length objs"
      and recs: "\<forall>i < length objs. \<exists>info cat.
               let ann = obj_annotation (objs ! i) in
                 ?idata (image_id ann) = Some info
               \<and> next_category (categories example_coco) (category_id ann) = Inr cat
               \<and> crop_object even_odd_fill (test_processor False) (file_name info) (bbox ann)
                    (segmentation ann) = Inr (Some (obj_image (objs ! i)))
               \<and> example_uploads ! i =
                   \<lparr>up_id = ann_id ann,
                    up_vector = generate_embeddings ?gen (map obj_image objs) ! i,
                    up_payload =
                      \<lparr>p_image_id = image_id ann,
                       p_file_name = file_name info,
                       p_category_id = category_id ann,
                       p_category_name = cat_name cat,
                       p_bbox = bbox ann,
                       p_segmentation = segmentation ann,
                       p_area = area ann,
                       p_iscrowd = (case iscrowd ann of None \<Rightarrow> 0 | Some c \<Rightarrow> c)\<rparr>\<rparr>"
    by blast
  have ids: "up_id (example_uploads ! i) = ann_id (obj_annotation (objs ! i))"
    if "i < length objs" for i
  proof -
    from recs that obtain info cat v pl
      where "example_uploads ! i
               = \<lparr>up_id = ann_id (obj_annotation (objs ! i)), up_vector = v, up_payload = pl\<rparr>"
      unfolding Let_def by blast
    then show ?thesis by simp
  qed
  have "map up_id example_uploads = map ann_id (map obj_annotation objs)"
    using len ids by (intro nth_equalityI) simp_all
  with kept have "map up_id example_uploads
       = map ann_id (filter (survives even_odd_fill (test_processor False) ?idata)
                       example_annotations)"
    by simp
  moreover have "map up_id example_uploads = [11, 13]"
    by (simp add: example_uploads_def)
  ultimately show ?thesis
    using run by blast
qed

text \<open>
  C3, as the spec states it, fails: when the embedding service answers the two regions
  of the example with three vectors, the batch is not failed; the first two vectors
  are attached to the two objects, the third is dropped, and the run ends with exit
  code 0 and the batch uploaded.
\<close>

theorem embedding_length_mismatch_counterexample:
  "embed long_generator [crop test_image (50, 40, 150, 120), crop test_image (250, 150, 300, 200)]
     = Inr [[100, 80], [50, 50], [7, 7]]
   \<and> process_batch even_odd_fill (test_processor False) long_generator example_coco
        example_annotations = Inr example_uploads
   \<and> main_loop even_odd_fill (test_processor False) long_generator example_coco 32 []
        = (0, [example_uploads])"
proof -
  have service: "embed long_generator
       [crop test_image (50, 40, 150, 120), crop test_image (250, 150, 300, 200)]
     = Inr [[100, 80], [50, 50], [7, 7]]"
    using long_service unfolding example_regions .
  have "embed_and_prepare long_generator example_objects
          = Inr (map2 make_upload_object example_objects [[100, 80], [50, 50], [7, 7]])"
    using embed_and_prepare_eq [OF example_objects_length(1) long_service]
    by (simp add: example_objects_length(2))
  then have "embed_and_prepare long_generator example_objects = Inr example_uploads"
    by (simp only: example_zip)
  then have batch: "process_batch even_odd_fill (test_processor False) long_generator
      example_coco example_annotations = Inr example_uploads"
    by (simp only: process_batch_cropped [OF example_crop_batch])
  have "main_loop even_odd_fill (test_processor False) long_generator example_coco 32 []
      = run_batches even_odd_fill (test_processor False) long_generator example_coco
          [example_annotations] []"
    by (simp add: main_loop_def example_batches)
  also have "\<dots> = (0, [example_uploads])"
    by (simp add: batch upload_batch_def example_uploads_nonempty)
  finally show ?thesis
    using service batch by blast
qed

text \<open>
  C3, amended. For a batch with at least one cropped object whose embedding call
  returns a list of vectors: when the list is shorter than the list of objects, the
  batch raises IndexError, nothing of it reaches the uploader and the run ends with
  exit code 1; when it is as long or longer, no mismatch is detected: object i gets
  vector i, surplus vectors are dropped, and the batch is uploaded.
\<close>

theorem embedding_length_mismatch:
  assumes "crop_batch cover proc (image_data (images coco) batch) (categories coco) batch
             = Inr objs"
    and "objs \<noteq> []"
    and "embed gen (map obj_image objs) = Inr results"
  shows "(length results < length objs \<longrightarrow>
            process_batch cover proc gen coco batch = Inl IndexError
          \<and> run_batches cover proc gen coco (batch # rest) st = (1, st))
       \<and> (length objs \<le> length results \<longrightarrow>
            process_batch cover proc gen coco batch
              = Inr (map2 make_upload_object objs results)
          \<and> run_batches cover proc gen coco (batch # rest) st
              = run_batches cover proc gen coco rest
                  (st @ [map2 make_upload_object objs results]))"
proof -
  have eq: "process_batch cover proc gen coco batch =
           (if length objs \<le> length results then Inr (map2 make_upload_object objs results)
            else Inl IndexError)"
    using assms by (simp add: process_batch_cropped embed_and_prepare_eq)
  have "map2 make_upload_object objs results \<noteq> []" if "length objs \<le> length results"
    using that assms(2) by (cases objs; cases results) simp_all
  with eq show ?thesis
    by (simp add: upload_batch_def)
qed

theorem embedding_length_mismatch_witness:
  "process_batch even_odd_fill (test_processor False) short_generator example_coco
     example_annotations = Inl IndexError
   \<and> run_batches even_odd_fill (test_processor False) short_generator example_coco
       [example_annotations] [] = (1, [])
   \<and> process_batch even_odd_fill (test_processor False) long_generator example_coco
       example_annotations = Inr example_uploads"
proof -
  note short = embedding_length_mismatch
      [OF example_crop_batch example_objects_length(1) short_service, of "[]" "[]",
        THEN conjunct1]
  note long = embedding_length_mismatch
      [OF example_crop_batch example_objects_length(1) long_service, of "[]" "[]",
        THEN conjunct2]
  have "process_batch even_odd_fill (test_processor False) short_generator example_coco
     example_annotations = Inl IndexError
   \<and> run_batches even_odd_fill (test_processor False) short_generator example_coco
       [example_annotations] [] = (1, [])"
    using short by (simp add: example_objects_length(2))
  moreover have "process_batch even_odd_fill (test_processor False) long_generator
      example_coco example_annotations
        = Inr (map2 make_upload_object example_objects [[100, 80], [50, 50], [7, 7]])"
    using long by (simp add: example_objects_length(2))
  then have "process_batch even_odd_fill (test_processor False) long_generator
      example_coco example_annotations = Inr example_uploads"
    by (simp only: example_zip)
  ultimately show ?thesis by blast
qed




end
